theory Spec2Isabelle
  imports Complex_Main "HOL-Library.AList"
begin

section \<open>The understat crawler (scrape.py)\<close>

text \<open>
  The crawler is a Python asyncio program. Its coroutines are embedded as functions that
  take the state of the outside world and return the new state together with either the
  value returned or the exception raised. A coroutine that never completes (the retry loop
  of \<open>get_data\<close> under endless throttling) has the result \<open>None\<close>.
\<close>

subsection \<open>Exceptions, log records and the world\<close>

datatype py_error =
    ThrottlingError
  | ClientError
  | ZeroDivisionError
  | ValueError
  | KeyError
  | TypeError
  | AttributeError
  | FileNotFoundError
  | FileExistsError
  | IsADirectoryError
  | NotADirectoryError
  | JSONDecodeError
  | UnicodeDecodeError

text \<open>
  The calls to the \<open>logging\<close> module, with the arguments of their format strings:
  \<open>Info_process\<close> for the phase messages of \<open>main\<close>, \<open>Info_split\<close> and
  \<open>Info_batch\<close> for the two messages of \<open>loop_run_in_batch\<close>, and
  \<open>Warning_throttling\<close> for the warning of \<open>get_data\<close>.
\<close>

datatype log_event =
    Info_process string
  | Info_split string int int int
  | Info_batch string int int
  | Warning_throttling string real

text \<open>
  The world: how many requests each URL has received, how many cool-down delays have been
  drawn from the random generator, the delays slept so far, the files and directories on
  disk (by path), and the log. The record is extensible, so that a worker may keep a trace
  of its own in the extension.
\<close>

record world =
  requests :: "string \<Rightarrow> nat"
  draws :: nat
  slept :: "real list"
  files :: "string \<rightharpoonup> string"
  dirs :: "string set"
  logged :: "log_event list"

type_synonym ('a, 'z) outcome = "((py_error + 'a) \<times> 'z world_scheme) option"

subsection \<open>Python strings and lists\<close>

text \<open>
  A string is the list of its characters; a character is its code point, which the model
  takes to be below 256. \<open>xs[start:stop]\<close> with integer bounds: a negative bound
  counts from the end, and both bounds are clamped to the list.
\<close>

definition py_slice :: "'a list \<Rightarrow> int \<Rightarrow> int \<Rightarrow> 'a list" where
  "py_slice xs start stop =
     (let n = int (length xs);
          clamp = (\<lambda>k. if k < 0 then max (k + n) 0 else min k n);
          lo = clamp start;
          hi = clamp stop
      in take (nat (hi - lo)) (drop (nat lo) xs))"

text \<open>
  \<open>str.strip()\<close> removes leading and trailing whitespace. The whitespace characters
  below 256 are tab, line feed, vertical tab, form feed, carriage return, the four
  separators 28 to 31, space, next line (133) and no-break space (160).
\<close>

definition py_isspace :: "char \<Rightarrow> bool" where
  "py_isspace c = (of_char c \<in> {9, 10, 11, 12, 13, 28, 29, 30, 31, 32, 133, 160 :: nat})"

definition py_strip :: "string \<Rightarrow> string" where
  "py_strip s = rev (dropWhile py_isspace (rev (dropWhile py_isspace s)))"

text \<open>
  \<open>s.split(sep)\<close> for a separator of one character: the parts between the
  occurrences of the separator, empty parts included.
\<close>

fun py_split :: "char \<Rightarrow> string \<Rightarrow> string list" where
  "py_split sep [] = [[]]"
| "py_split sep (c # cs) =
     (if c = sep then [] # py_split sep cs
      else case py_split sep cs of
             [] \<Rightarrow> [[c]]
           | part # parts \<Rightarrow> (c # part) # parts)"

text \<open>
  A loop or comprehension that builds a list and stops at the first exception.
\<close>

fun collect :: "('a \<Rightarrow> py_error + 'b) \<Rightarrow> 'a list \<Rightarrow> py_error + 'b list" where
  "collect f [] = Inr []"
| "collect f (x # xs) =
     (case f x of
        Inl err \<Rightarrow> Inl err
      | Inr y \<Rightarrow> (case collect f xs of Inl err \<Rightarrow> Inl err | Inr ys \<Rightarrow> Inr (y # ys)))"

subsection \<open>Values decoded from JSON\<close>

text \<open>
  What \<open>json.loads\<close> returns: \<open>None\<close>, a bool, an int, a float (the real
  number it denotes; NaN and the infinities are not represented), a str, a list, or a dict
  with string keys in insertion order. The operations below are the ones \<open>main\<close>
  applies to such values: subscription with a string, \<open>.items()\<close>, iteration,
  hashing and equality (\<open>True == 1 == 1.0\<close>).
\<close>

datatype json =
    JNull
  | JBool bool
  | JInt int
  | JFloat real
  | JStr string
  | JArr "json list"
  | JObj "(string \<times> json) list"

fun py_getitem :: "json \<Rightarrow> string \<Rightarrow> py_error + json" where
  "py_getitem (JObj kvs) k = (case map_of kvs k of None \<Rightarrow> Inl KeyError | Some v \<Rightarrow> Inr v)"
| "py_getitem v k = Inl TypeError"

fun py_items :: "json \<Rightarrow> py_error + (string \<times> json) list" where
  "py_items (JObj kvs) = Inr kvs"
| "py_items v = Inl AttributeError"

fun py_iter :: "json \<Rightarrow> py_error + json list" where
  "py_iter (JArr xs) = Inr xs"
| "py_iter (JObj kvs) = Inr (map (\<lambda>(k, v). JStr k) kvs)"
| "py_iter (JStr s) = Inr (map (\<lambda>c. JStr [c]) s)"
| "py_iter v = Inl TypeError"

fun py_hashable :: "json \<Rightarrow> bool" where
  "py_hashable (JArr xs) = False"
| "py_hashable (JObj kvs) = False"
| "py_hashable v = True"

fun py_number :: "json \<Rightarrow> real option" where
  "py_number (JBool b) = Some (if b then 1 else 0)"
| "py_number (JInt i) = Some (real_of_int i)"
| "py_number (JFloat r) = Some r"
| "py_number v = None"

definition py_eq :: "json \<Rightarrow> json \<Rightarrow> bool" where
  "py_eq a b =
     (case (py_number a, py_number b) of
        (Some x, Some y) \<Rightarrow> x = y
      | (None, None) \<Rightarrow> a = b
      | _ \<Rightarrow> False)"

text \<open>
  A Python set is kept as a list without equal elements, in insertion order (the order in
  which Python iterates over a set is unspecified). \<open>s.update(new)\<close> adds the
  elements of \<open>new\<close> that are not equal to one already present.
\<close>

definition py_set_update :: "('a \<Rightarrow> 'a \<Rightarrow> bool) \<Rightarrow> 'a list \<Rightarrow> 'a list \<Rightarrow> 'a list" where
  "py_set_update eq s new = fold (\<lambda>x acc. if list_ex (eq x) acc then acc else acc @ [x]) new s"

subsection \<open>The libraries and the environment\<close>

text \<open>
  The library functions that \<open>get_data\<close> and \<open>main\<close> call are parameters:
  \<open>find_all_script html\<close> is the text of each \<open>script\<close> element of
  \<open>BeautifulSoup(html, "html.parser")\<close> in document order; \<open>pattern_search\<close>
  is \<open>PATTERN.search\<close> followed by \<open>groups()\<close>;
  \<open>unicode_escape val\<close> is \<open>bytes(val, 'utf-8').decode('unicode_escape')\<close>;
  \<open>json_loads\<close> and \<open>json_dumps\<close> are the functions of the \<open>json\<close>
  module.
\<close>

record lib =
  find_all_script :: "string \<Rightarrow> string list"
  pattern_search :: "string \<Rightarrow> (string \<times> string) option"
  unicode_escape :: "string \<Rightarrow> py_error + string"
  json_loads :: "string \<Rightarrow> py_error + json"
  json_dumps :: "json \<Rightarrow> string"

text \<open>
  The environment: the response that the \<open>k\<close>-th request to a URL receives (a body,
  or a failure of the transport, which \<open>aiohttp\<close> raises as \<open>ClientError\<close>), and
  the \<open>k\<close>-th values that \<open>random.randint(1, 5)\<close> and \<open>random.random()\<close>
  return.
\<close>

datatype response = Body string | Transport_failure

record env =
  http_response :: "string \<Rightarrow> nat \<Rightarrow> response"
  randint_1_5 :: "nat \<Rightarrow> int"
  random_random :: "nat \<Rightarrow> real"

subsection \<open>Paths and the file system\<close>

text \<open>
  \<open>ROOTDIR\<close> and \<open>BASEURL\<close> of the source, and \<open>os.path.join\<close>,
  \<open>os.path.dirname\<close> and \<open>os.path.basename\<close> of \<open>posixpath\<close>: a
  component that starts with a slash replaces what has been joined so far.
\<close>

definition ROOTDIR :: string where
  "ROOTDIR = ''data''"


fun os_path_join :: "string \<Rightarrow> string list \<Rightarrow> string" where
  "os_path_join path [] = path"
| "os_path_join path (b # p) =
     os_path_join
       (if b \<noteq> [] \<and> hd b = CHR ''/'' then b
        else if path = [] \<or> last path = CHR ''/'' then path @ b
        else path @ ''/'' @ b) p"

definition os_path_dirname :: "string \<Rightarrow> string" where
  "os_path_dirname p =
     (let head = rev (dropWhile (\<lambda>c. c \<noteq> CHR ''/'') (rev p))
      in if head \<noteq> [] \<and> \<not> list_all (\<lambda>c. c = CHR ''/'') head
         then rev (dropWhile (\<lambda>c. c = CHR ''/'') (rev head))
         else head)"

definition os_path_basename :: "string \<Rightarrow> string" where
  "os_path_basename p = rev (takeWhile (\<lambda>c. c \<noteq> CHR ''/'') (rev p))"

text \<open>
  The file system holds files and directories by path. Paths are compared as strings, which
  is exact for relative paths without empty, \<open>.\<close> or \<open>..\<close> components.
  \<open>os.makedirs\<close> creates a directory and its missing ancestors, and raises when the
  path exists or an ancestor is a file. \<open>open_write\<close> is \<open>open(path, 'w')\<close>
  followed by \<open>f.write(data)\<close>: it needs the parent directory, and replaces the
  content of the file.
\<close>

definition os_path_isdir :: "'z world_scheme \<Rightarrow> string \<Rightarrow> bool" where
  "os_path_isdir w p = (p \<noteq> [] \<and> p \<in> dirs w)"

definition path_ancestors :: "string \<Rightarrow> string list" where
  "path_ancestors p = [take i p. i \<leftarrow> [1..<length p], p ! i = CHR ''/'']"

definition os_makedirs :: "string \<Rightarrow> 'z world_scheme \<Rightarrow> py_error + 'z world_scheme" where
  "os_makedirs p w =
     (if p = [] then Inl FileNotFoundError
      else if p \<in> dirs w \<or> files w p \<noteq> None then Inl FileExistsError
      else if list_ex (\<lambda>a. files w a \<noteq> None) (path_ancestors p) then Inl NotADirectoryError
      else Inr (w\<lparr>dirs := dirs w \<union> set (path_ancestors p) \<union> {p}\<rparr>))"

definition open_write :: "string \<Rightarrow> string \<Rightarrow> 'z world_scheme \<Rightarrow> py_error + 'z world_scheme" where
  "open_write p data w =
     (if p = [] then Inl FileNotFoundError
      else if last p = CHR ''/'' \<or> os_path_basename p = ''.'' \<or> os_path_basename p = ''..''
              \<or> p \<in> dirs w
        then Inl IsADirectoryError
      else if os_path_dirname p \<noteq> [] \<and> files w (os_path_dirname p) \<noteq> None
        then Inl NotADirectoryError
      else if os_path_dirname p \<noteq> [] \<and> os_path_dirname p \<notin> dirs w
        then Inl FileNotFoundError
      else Inr (w\<lparr>files := (files w)(p \<mapsto> data)\<rparr>))"

subsection \<open>Persistence: \<open>tag_and_save\<close>\<close>

text \<open>
  \<open>tag_and_save(key, coroutine)\<close> awaits the coroutine, writes its result under
  \<open>ROOTDIR\<close> at the path made of the key's segments, and returns the key with the
  result.
\<close>

definition tag_and_save ::
  "string list \<Rightarrow> ('z world_scheme \<Rightarrow> (string, 'z) outcome) \<Rightarrow> 'z world_scheme
     \<Rightarrow> (string list \<times> string, 'z) outcome" where
  "tag_and_save key coroutine w =
     (case coroutine w of
        None \<Rightarrow> None
      | Some (Inl err, w1) \<Rightarrow> Some (Inl err, w1)
      | Some (Inr data, w1) \<Rightarrow>
          (let path = os_path_join ROOTDIR key
           in case (if \<not> os_path_isdir w1 (os_path_dirname path)
                    then os_makedirs (os_path_dirname path) w1
                    else Inr w1) of
                Inl err \<Rightarrow> Some (Inl err, w1)
              | Inr w2 \<Rightarrow>
                  (case open_write path data w2 of
                     Inl err \<Rightarrow> Some (Inl err, w2)
                   | Inr w3 \<Rightarrow> Some (Inr (key, data), w3))))"

subsection \<open>Fetching: \<open>get_page\<close> and \<open>get_data\<close>\<close>

text \<open>
  \<open>get_page(url)\<close> makes one request and raises \<open>ThrottlingError\<close> when the
  stripped body is \<open>closed.php\<close>.
\<close>

definition get_page ::
  "env \<Rightarrow> string \<Rightarrow> 'z world_scheme \<Rightarrow> (py_error + string) \<times> 'z world_scheme" where
  "get_page e url w =
     (let w1 = w\<lparr>requests := (requests w)(url := Suc (requests w url))\<rparr>
      in case http_response e url (requests w url) of
           Transport_failure \<Rightarrow> (Inl ClientError, w1)
         | Body html \<Rightarrow>
             if py_strip html = ''closed.php'' then (Inl ThrottlingError, w1)
             else (Inr html, w1))"

text \<open>
  The \<open>while True\<close> loop of \<open>get_data\<close>: on \<open>ThrottlingError\<close> it draws
  a cool-down, logs a warning, sleeps and tries again; any other exception propagates. The
  loop has no bound, so its result is an option: \<open>None\<close> when it never leaves.
\<close>

definition cool_down :: "env \<Rightarrow> nat \<Rightarrow> real" where
  "cool_down e k = real_of_int (randint_1_5 e k) + random_random e k"

partial_function (option) get_data_fetch ::
  "env \<Rightarrow> string \<Rightarrow> 'z world_scheme \<Rightarrow> ((py_error + string) \<times> 'z world_scheme) option" where
  "get_data_fetch e url w =
     (case get_page e url w of
        (Inl ThrottlingError, w1) \<Rightarrow>
          get_data_fetch e url
            (w1\<lparr>draws := Suc (draws w1),
                 logged := logged w1 @ [Warning_throttling url (cool_down e (draws w1))],
                 slept := slept w1 @ [cool_down e (draws w1)]\<rparr>)
      | (Inl err, w1) \<Rightarrow> Some (Inl err, w1)
      | (Inr html, w1) \<Rightarrow> Some (Inr html, w1))"

declare get_data_fetch.simps [code]

text \<open>
  The rest of \<open>get_data\<close>: every script whose text matches the pattern stores its
  decoded value under its variable name in a dict, which is returned serialised.
\<close>

fun get_data_scripts ::
  "lib \<Rightarrow> string list \<Rightarrow> (string \<times> json) list \<Rightarrow> py_error + (string \<times> json) list" where
  "get_data_scripts l [] data = Inr data"
| "get_data_scripts l (script # scripts) data =
     (case pattern_search l script of
        None \<Rightarrow> get_data_scripts l scripts data
      | Some (key, val) \<Rightarrow>
          (case unicode_escape l val of
             Inl err \<Rightarrow> Inl err
           | Inr decoded \<Rightarrow>
               (case json_loads l decoded of
                  Inl err \<Rightarrow> Inl err
                | Inr val_json \<Rightarrow> get_data_scripts l scripts (AList.update key val_json data))))"

definition get_data ::
  "lib \<Rightarrow> env \<Rightarrow> string \<Rightarrow> 'z world_scheme \<Rightarrow> (string, 'z) outcome" where
  "get_data l e url w =
     (case get_data_fetch e url w of
        None \<Rightarrow> None
      | Some (Inl err, w1) \<Rightarrow> Some (Inl err, w1)
      | Some (Inr html, w1) \<Rightarrow>
          (case get_data_scripts l (find_all_script l html) [] of
             Inl err \<Rightarrow> Some (Inl err, w1)
           | Inr data \<Rightarrow> Some (Inr (json_dumps l (JObj data)), w1)))"

subsection \<open>The stage drivers\<close>








subsection \<open>The batched runner\<close>

text \<open>
  \<open>loop_run_in_batch(func, arg_list, batch_size)\<close>. The worker \<open>func\<close> is passed
  with its \<open>__name__\<close>. The floor division of line 105 raises \<open>ZeroDivisionError\<close> for
  a zero batch size, before anything is logged. \<open>loop_run_in_batch_for\<close> is the
  \<open>for i in range(numbatches)\<close> loop, from index \<open>i\<close> with \<open>k\<close> iterations left;
  an exception of the worker leaves the loop.
\<close>


fun loop_run_in_batch_for ::
  "string \<Rightarrow> ('a list \<Rightarrow> 'z world_scheme \<Rightarrow> (unit, 'z) outcome) \<Rightarrow> 'a list \<Rightarrow> int \<Rightarrow> int \<Rightarrow> nat
     \<Rightarrow> 'z world_scheme \<Rightarrow> (unit, 'z) outcome" where
  "loop_run_in_batch_for name func arg_list batch_size i 0 w = Some (Inr (), w)"
| "loop_run_in_batch_for name func arg_list batch_size i (Suc k) w =
     (let start = i * batch_size;
          stop = min ((i + 1) * batch_size) (int (length arg_list))
      in case func (py_slice arg_list start stop) w of
           None \<Rightarrow> None
         | Some (Inl err, w1) \<Rightarrow> Some (Inl err, w1)
         | Some (Inr u, w1) \<Rightarrow>
             loop_run_in_batch_for name func arg_list batch_size (i + 1) k
               (w1\<lparr>logged := logged w1 @ [Info_batch name i stop]\<rparr>))"

definition loop_run_in_batch ::
  "string \<Rightarrow> ('a list \<Rightarrow> 'z world_scheme \<Rightarrow> (unit, 'z) outcome) \<Rightarrow> 'a list \<Rightarrow> int
     \<Rightarrow> 'z world_scheme \<Rightarrow> (unit, 'z) outcome" where
  "loop_run_in_batch name func arg_list batch_size w =
     (if batch_size = 0 then Some (Inl ZeroDivisionError, w)
      else
        let numbatches = (int (length arg_list) + batch_size - 1) div batch_size;
            w1 = w\<lparr>logged := logged w @
                   [Info_split name numbatches (int (length arg_list)) batch_size]\<rparr>
        in loop_run_in_batch_for name func arg_list batch_size 0 (nat numbatches) w1)"

subsection \<open>The orchestrator: \<open>main\<close>\<close>


definition team_seasons_of :: "string \<Rightarrow> json \<Rightarrow> py_error + (json \<times> string) list" where
  "team_seasons_of season val =
     (case py_getitem val ''teamsData'' of
        Inl err \<Rightarrow> Inl err
      | Inr teams \<Rightarrow>
          (case py_items teams of
             Inl err \<Rightarrow> Inl err
           | Inr items \<Rightarrow>
               collect
                 (\<lambda>(team_id, team).
                    case py_getitem team ''title'' of
                      Inl err \<Rightarrow> Inl err
                    | Inr title \<Rightarrow> if py_hashable title then Inr (title, season) else Inl TypeError)
                 items))"

fun main_team_seasons ::
  "(string list \<times> json) list \<Rightarrow> (json \<times> string) list \<Rightarrow> py_error + (json \<times> string) list" where
  "main_team_seasons [] team_seasons = Inr team_seasons"
| "main_team_seasons ((key, val) # items) team_seasons =
     (case key of
        [kind, league, season] \<Rightarrow>
          (case team_seasons_of season val of
             Inl err \<Rightarrow> Inl err
           | Inr new \<Rightarrow>
               main_team_seasons items
                 (py_set_update (\<lambda>(t, s) (t', s'). py_eq t t' \<and> s = s') team_seasons new))
      | _ \<Rightarrow> Inl ValueError)"

definition ids_of :: "string \<Rightarrow> json \<Rightarrow> py_error + json list" where
  "ids_of field val =
     (case py_getitem val field of
        Inl err \<Rightarrow> Inl err
      | Inr descriptors \<Rightarrow>
          (case py_iter descriptors of
             Inl err \<Rightarrow> Inl err
           | Inr xs \<Rightarrow>
               collect
                 (\<lambda>x. case py_getitem x ''id'' of
                         Inl err \<Rightarrow> Inl err
                       | Inr ident \<Rightarrow> if py_hashable ident then Inr ident else Inl TypeError)
                 xs))"

fun main_ids ::
  "string \<Rightarrow> (string list \<times> json) list \<Rightarrow> json list \<Rightarrow> py_error + json list" where
  "main_ids field [] ids = Inr ids"
| "main_ids field ((key, val) # items) ids =
     (case ids_of field val of
        Inl err \<Rightarrow> Inl err
      | Inr new \<Rightarrow> main_ids field items (py_set_update py_eq ids new))"



subsection \<open>Probes and example inputs\<close>

text \<open>
  A worker that does nothing but append the slice it is called with to a trace kept in the
  extension of the world: the trace is then the sequence of the runner's invocations.
\<close>

definition record_call ::
  "'a list \<Rightarrow> ('a list list) world_scheme \<Rightarrow> (unit, 'a list list) outcome" where
  "record_call chunk w = Some (Inr (), w\<lparr>world.more := world.more w @ [chunk]\<rparr>)"

text \<open>
  A world in which nothing has happened yet (with an empty trace), and a coroutine that
  returns a given value at once.
\<close>

definition fresh_world :: "('a list) world_scheme" where
  "fresh_world =
     \<lparr>requests = (\<lambda>url. 0), draws = 0, slept = [], files = Map.empty, dirs = {},
      logged = [], \<dots> = []\<rparr>"

definition returning :: "'a \<Rightarrow> 'z world_scheme \<Rightarrow> ('a, 'z) outcome" where
  "returning x w = Some (Inr x, w)"



text \<open>
  Environments for the examples: one that answers the requests to any URL with the given
  bodies in turn (and fails afterwards), one that throttles forever, and a site with one
  league page (throttled once) that holds one team, one player and one match. The
  stand-ins for the libraries read a page as script texts separated by semicolons, a
  script text \<open>name=val\<close> as a match of the pattern, and decode the values of that
  site (any other value as a string).
\<close>

definition replay :: "string list \<Rightarrow> env" where
  "replay bodies =
     \<lparr>http_response = (\<lambda>url k. if k < length bodies then Body (bodies ! k) else Transport_failure),
      randint_1_5 = (\<lambda>k. 1 + int (k mod 5)),
      random_random = (\<lambda>k. 1 / 2)\<rparr>"


definition league_page :: string where
  "league_page = ''teamsData=T;playersData=P;datesData=D''"

definition league_snapshot_example :: json where
  "league_snapshot_example =
     JObj [(''teamsData'', JObj [(''1'', JObj [(''title'', JStr ''A'')])]),
           (''playersData'', JArr [JObj [(''id'', JStr ''p1'')]]),
           (''datesData'', JArr [JObj [(''id'', JStr ''m1'')]])]"

definition toy_lib :: lib where
  "toy_lib =
     \<lparr>find_all_script = py_split (CHR '';''),
      pattern_search = (\<lambda>script.
         case py_split (CHR ''='') script of
           [name, val] \<Rightarrow> Some (name, val)
         | _ \<Rightarrow> None),
      unicode_escape = (\<lambda>val. Inr val),
      json_loads = (\<lambda>s.
         if s = ''T'' then Inr (JObj [(''1'', JObj [(''title'', JStr ''A'')])])
         else if s = ''P'' then Inr (JArr [JObj [(''id'', JStr ''p1'')]])
         else if s = ''D'' then Inr (JArr [JObj [(''id'', JStr ''m1'')]])
         else if s = ''{}'' then Inr (JObj [])
         else if s = ''<snapshot>'' then Inr league_snapshot_example
         else Inr (JStr s)),
      json_dumps = (\<lambda>v.
         if v = JObj [] then ''{}''
         else if v = league_snapshot_example then ''<snapshot>''
         else ''?'')\<rparr>"

definition toy_site :: env where
  "toy_site =
     \<lparr>http_response = (\<lambda>url k.
         if url = ''https://understat.com/league/EPL/2016'' then
           (if k = 0 then Body ''closed.php'' else Body league_page)
         else Body ''<html></html>''),
      randint_1_5 = (\<lambda>k. 1 + int (k mod 5)),
      random_random = (\<lambda>k. 1 / 2)\<rparr>"

subsection \<open>Notions used in the statements\<close>

text \<open>
  The matches of the pattern in a page: variable name and raw value of every script that
  matches, in document order; the decoding of a raw value; and the matches with their
  values decoded (or the first exception of the decoding).
\<close>

definition matches :: "lib \<Rightarrow> string \<Rightarrow> (string \<times> string) list" where
  "matches l html = List.map_filter (pattern_search l) (find_all_script l html)"

definition decode :: "lib \<Rightarrow> string \<Rightarrow> py_error + json" where
  "decode l val =
     (case unicode_escape l val of
        Inl err \<Rightarrow> Inl err
      | Inr decoded \<Rightarrow> json_loads l decoded)"

definition parsed_matches :: "lib \<Rightarrow> string \<Rightarrow> py_error + (string \<times> json) list" where
  "parsed_matches l html =
     collect (\<lambda>(name, val). case decode l val of Inl err \<Rightarrow> Inl err | Inr v \<Rightarrow> Inr (name, v))
       (matches l html)"

text \<open>
  A key segment that is a plain file name, and a file system that can take a file at a
  path: the path is not a directory, and neither its parent nor an ancestor of the parent
  is a regular file.
\<close>

definition plain_segment :: "string \<Rightarrow> bool" where
  "plain_segment s = (s \<noteq> [] \<and> CHR ''/'' \<notin> set s \<and> s \<noteq> ''.'' \<and> s \<noteq> ''..'')"

definition can_store :: "'z world_scheme \<Rightarrow> string \<Rightarrow> bool" where
  "can_store w path =
     (path \<notin> dirs w
      \<and> files w (os_path_dirname path) = None
      \<and> list_all (\<lambda>a. files w a = None) (path_ancestors (os_path_dirname path)))"

text \<open>
  What a League Snapshot holds, read off the decoded value: the titles of the team
  descriptors under \<open>teamsData\<close>, and the ids of the descriptors in the list under
  \<open>playersData\<close> or \<open>datesData\<close>; \<open>None\<close> when the value does not have
  that shape.
\<close>

definition str_field :: "string \<Rightarrow> json \<Rightarrow> string option" where
  "str_field k v =
     (case v of
        JObj kvs \<Rightarrow> (case map_of kvs k of Some (JStr s) \<Rightarrow> Some s | _ \<Rightarrow> None)
      | _ \<Rightarrow> None)"

definition snapshot_titles :: "json \<Rightarrow> string list option" where
  "snapshot_titles val =
     (case val of
        JObj kvs \<Rightarrow>
          (case map_of kvs ''teamsData'' of
             Some (JObj teams) \<Rightarrow> those (map (\<lambda>(team_id, team). str_field ''title'' team) teams)
           | _ \<Rightarrow> None)
      | _ \<Rightarrow> None)"

definition snapshot_ids :: "string \<Rightarrow> json \<Rightarrow> string list option" where
  "snapshot_ids field val =
     (case val of
        JObj kvs \<Rightarrow>
          (case map_of kvs field of
             Some (JArr xs) \<Rightarrow> those (map (str_field ''id'') xs)
           | _ \<Rightarrow> None)
      | _ \<Rightarrow> None)"

definition league_snapshots :: "(string list \<times> json) list \<Rightarrow> bool" where
  "league_snapshots data =
     list_all
       (\<lambda>(key, val).
          length key = 3
          \<and> snapshot_titles val \<noteq> None
          \<and> snapshot_ids ''playersData'' val \<noteq> None
          \<and> snapshot_ids ''datesData'' val \<noteq> None)
       data"







section \<open>Properties of the batched runner\<close>

lemma ceiling_batches:
  assumes "1 \<le> (b::int)"
  shows "(a + b - 1) div b = \<lceil>real_of_int a / real_of_int b\<rceil>"
proof -
  define q where "q = (a + b - 1) div b"
  define r where "r = (a + b - 1) mod b"
  have eq: "a + b - 1 = q * b + r"
    by (simp add: q_def r_def)
  have r: "0 \<le> r" "r < b"
    using assms by (simp_all add: r_def)
  have pos: "0 < real_of_int b"
    using assms by simp
  have "a \<le> q * b"
    using eq r by linarith
  then have "real_of_int a \<le> real_of_int q * real_of_int b"
    by (metis of_int_le_iff of_int_mult)
  then have upper: "real_of_int a / real_of_int b \<le> real_of_int q"
    using pos by (simp add: pos_divide_le_eq)
  have "q * b - b < a"
    using eq r by linarith
  then have "real_of_int (q * b - b) < real_of_int a"
    by (simp only: of_int_less_iff)
  then have "(real_of_int q - 1) * real_of_int b < real_of_int a"
    by (simp add: algebra_simps)
  then have lower: "real_of_int q - 1 < real_of_int a / real_of_int b"
    using pos by (simp add: pos_less_divide_eq)
  have "\<lceil>real_of_int a / real_of_int b\<rceil> = q"
    using lower upper by (rule ceiling_unique)
  then show ?thesis
    by (simp add: q_def)
qed

lemma py_slice_batch:
  assumes "1 \<le> b" "0 \<le> i"
  shows "py_slice xs (i * b) (min ((i + 1) * b) (int (length xs)))
           = take (nat b) (drop (nat i * nat b) xs)"
proof -
  have ib: "0 \<le> i * b"
    using assms by simp
  have nat_ib: "nat (i * b) = nat i * nat b"
    using assms by (simp add: nat_mult_distrib)
  have step: "i * b \<le> (i + 1) * b"
    using assms by (simp add: algebra_simps)
  show ?thesis
  proof (cases "i * b \<le> int (length xs)")
    case True
    then have len: "nat i * nat b \<le> length xs"
      using nat_ib ib by linarith
    have "py_slice xs (i * b) (min ((i + 1) * b) (int (length xs)))
            = take (nat (min ((i + 1) * b) (int (length xs)) - i * b)) (drop (nat (i * b)) xs)"
      using True ib step by (simp add: py_slice_def Let_def min_def)
    also have "nat (min ((i + 1) * b) (int (length xs)) - i * b)
                 = min (nat b) (length (drop (nat (i * b)) xs))"
    proof -
      from ib obtain m where m: "i * b = int m"
        using zero_le_imp_eq_int by blast
      have le: "m \<le> length xs"
        using True m by simp
      have next_start: "(i + 1) * b = int m + b"
        using m by (simp add: algebra_simps)
      have "nat (min (int m + b) (int (length xs)) - int m) = min (nat b) (length xs - m)"
        using le assms(1) by arith
      then show ?thesis
        by (simp add: next_start m)
    qed
    also have "take (min (nat b) (length (drop (nat (i * b)) xs))) (drop (nat (i * b)) xs)
                 = take (nat b) (drop (nat (i * b)) xs)"
      by (simp add: min_def)
    finally show ?thesis
      by (simp add: nat_ib)
  next
    case False
    then have "length xs \<le> nat i * nat b"
      using nat_ib ib by linarith
    then have "take (nat b) (drop (nat i * nat b) xs) = []"
      by simp
    moreover have "py_slice xs (i * b) (min ((i + 1) * b) (int (length xs))) = []"
      using False ib step by (simp add: py_slice_def Let_def min_def)
    ultimately show ?thesis
      by simp
  qed
qed

lemma concat_batches:
  "concat (map (\<lambda>j. take b (drop (j * b) xs)) [0..<n]) = take (n * b) xs"
proof (induction n)
  case 0
  then show ?case by simp
next
  case (Suc n)
  have "take (Suc n * b) xs = take (n * b + b) xs"
    by (simp add: add.commute)
  also have "\<dots> = take (n * b) xs @ take b (drop (n * b) xs)"
    by (rule take_add)
  finally show ?case
    using Suc by simp
qed

lemma loop_run_in_batch_for_record_call:
  assumes "1 \<le> b" "0 \<le> i"
  shows "\<exists>w'. loop_run_in_batch_for name record_call xs b i k w = Some (Inr (), w')
           \<and> world.more w' = world.more w
                @ map (\<lambda>j. take (nat b) (drop (j * nat b) xs)) [nat i..<nat i + k]"
  using assms(2)
proof (induction k arbitrary: i w)
  case 0
  then show ?case by simp
next
  case (Suc k)
  let ?c = "take (nat b) (drop (nat i * nat b) xs)"
  let ?w1 = "(w\<lparr>world.more := world.more w @ [?c]\<rparr>)
               \<lparr>logged := logged w @ [Info_batch name i (min ((i + 1) * b) (int (length xs)))]\<rparr>"
  have step: "loop_run_in_batch_for name record_call xs b i (Suc k) w
                = loop_run_in_batch_for name record_call xs b (i + 1) k ?w1"
    using py_slice_batch[OF assms(1) Suc.prems, of xs]
    by (simp add: record_call_def Let_def)
  have "0 \<le> i + 1"
    using Suc.prems by simp
  from Suc.IH[OF this, of ?w1] obtain w' where
    w': "loop_run_in_batch_for name record_call xs b (i + 1) k ?w1 = Some (Inr (), w')"
        "world.more w' = world.more ?w1
           @ map (\<lambda>j. take (nat b) (drop (j * nat b) xs)) [nat (i + 1)..<nat (i + 1) + k]"
    by blast
  have idx: "nat (i + 1) = Suc (nat i)"
    using Suc.prems by simp
  have "[nat i..<nat i + Suc k] = nat i # [Suc (nat i)..<Suc (nat i) + k]"
    by (simp add: upt_conv_Cons)
  then show ?case
    using step w' idx by simp
qed

text \<open>
  C1. For every list and every batch size of at least one, the runner calls its worker
  exactly \<open>ceil(len(arg_list) / batch_size)\<close> times: call \<open>j\<close> receives the
  \<open>batch_size\<close> items from position \<open>j * batch_size\<close> on (fewer at the end of the
  list), no call receives more than \<open>batch_size\<close> items, the slices in the order of the
  calls concatenate to the list, and an empty list gives no call at all.
\<close>

theorem loop_run_in_batch_calls:
  assumes "1 \<le> batch_size"
  shows "\<exists>w' calls.
           loop_run_in_batch name record_call arg_list batch_size w = Some (Inr (), w')
         \<and> world.more w' = world.more w @ calls
         \<and> int (length calls) = \<lceil>real (length arg_list) / real_of_int batch_size\<rceil>
         \<and> calls = map (\<lambda>j. take (nat batch_size) (drop (j * nat batch_size) arg_list))
                      [0..<length calls]
         \<and> (\<forall>c \<in> set calls. length c \<le> nat batch_size)
         \<and> concat calls = arg_list
         \<and> (arg_list = [] \<longrightarrow> calls = [])"
proof -
  define n where "n = nat ((int (length arg_list) + batch_size - 1) div batch_size)"
  define calls where
    "calls = map (\<lambda>j. take (nat batch_size) (drop (j * nat batch_size) arg_list)) [0..<n]"
  let ?w1 = "w\<lparr>logged := logged w @
               [Info_split name ((int (length arg_list) + batch_size - 1) div batch_size)
                  (int (length arg_list)) batch_size]\<rparr>"
  have run: "loop_run_in_batch name record_call arg_list batch_size w
               = loop_run_in_batch_for name record_call arg_list batch_size 0 n ?w1"
    using assms by (simp add: loop_run_in_batch_def n_def Let_def)
  from loop_run_in_batch_for_record_call[OF assms, of 0 name arg_list n ?w1]
  obtain w' where w': "loop_run_in_batch_for name record_call arg_list batch_size 0 n ?w1
                         = Some (Inr (), w')"
      "world.more w' = world.more w @ calls"
    by (auto simp: calls_def)
  have ceil: "(int (length arg_list) + batch_size - 1) div batch_size
                = \<lceil>real (length arg_list) / real_of_int batch_size\<rceil>"
    using ceiling_batches[OF assms, of "int (length arg_list)"] by simp
  have "0 \<le> real (length arg_list) / real_of_int batch_size"
    using assms by simp
  then have "0 \<le> \<lceil>real (length arg_list) / real_of_int batch_size\<rceil>"
    by (simp add: zero_le_ceiling)
  then have count: "int (length calls) = \<lceil>real (length arg_list) / real_of_int batch_size\<rceil>"
    using ceil by (simp add: calls_def n_def)
  have shape: "calls = map (\<lambda>j. take (nat batch_size) (drop (j * nat batch_size) arg_list))
                         [0..<length calls]"
    by (simp add: calls_def)
  have bound: "\<forall>c \<in> set calls. length c \<le> nat batch_size"
    by (auto simp: calls_def)
  have "real (length arg_list) / real_of_int batch_size \<le> real_of_int (int n)"
    using count by (simp add: calls_def le_of_int_ceiling)
  then have "real (length arg_list) \<le> real n * real_of_int batch_size"
    using assms by (simp add: pos_divide_le_eq)
  then have "real (length arg_list) \<le> real (n * nat batch_size)"
    using assms by simp
  then have "length arg_list \<le> n * nat batch_size"
    by (simp only: of_nat_le_iff)
  then have whole: "concat calls = arg_list"
    by (simp add: calls_def concat_batches)
  have "arg_list = [] \<longrightarrow> n = 0"
    using assms by (simp add: n_def)
  then have none: "arg_list = [] \<longrightarrow> calls = []"
    by (simp add: calls_def)
  show ?thesis
  proof (intro exI conjI)
    show "loop_run_in_batch name record_call arg_list batch_size w = Some (Inr (), w')"
      using run w'(1) by simp
    show "world.more w' = world.more w @ calls"
      by (rule w'(2))
  qed (use count shape bound whole none in blast)+
qed

theorem loop_run_in_batch_calls_witness:
  "(1::int) \<le> 2 \<and>
   (\<exists>w' calls.
      loop_run_in_batch ''process_player_pages'' record_call ''abcde'' 2 fresh_world
        = Some (Inr (), w')
    \<and> world.more w' = world.more (fresh_world :: (string list) world_scheme) @ calls
    \<and> int (length calls) = \<lceil>real (length ''abcde'') / real_of_int 2\<rceil>
    \<and> calls = map (\<lambda>j. take (nat 2) (drop (j * nat 2) ''abcde'')) [0..<length calls]
    \<and> (\<forall>c \<in> set calls. length c \<le> nat 2)
    \<and> concat calls = ''abcde''
    \<and> (''abcde'' = [] \<longrightarrow> calls = []))"
  using loop_run_in_batch_calls[of 2 "''process_player_pages''" "''abcde''" fresh_world]
  by simp

text \<open>
  C6. With a batch size of zero the runner raises \<open>ZeroDivisionError\<close>, for every
  argument list (the empty one included) and every worker: it returns with the error, the
  world is left as it was, so no batch has run and nothing has been logged.
\<close>

theorem loop_run_in_batch_zero:
  "loop_run_in_batch name func arg_list 0 w = Some (Inl ZeroDivisionError, w)"
  by (simp add: loop_run_in_batch_def)

section \<open>Properties of fetching\<close>

lemma get_page_cases:
  "get_page e url w =
     (case http_response e url (requests w url) of
        Transport_failure \<Rightarrow> Inl ClientError
      | Body html \<Rightarrow> if py_strip html = ''closed.php'' then Inl ThrottlingError else Inr html,
      w\<lparr>requests := (requests w)(url := Suc (requests w url))\<rparr>)"
  by (simp add: get_page_def Let_def split: response.splits)

text \<open>
  C7. An attempt raises \<open>ThrottlingError\<close> exactly when the response is a body that,
  with the whitespace at both ends stripped, equals \<open>closed.php\<close>; for every other body
  the attempt returns the body as it was received.
\<close>

theorem get_page_throttling:
  "(fst (get_page e url w) = Inl ThrottlingError
      \<longleftrightarrow> (\<exists>html. http_response e url (requests w url) = Body html
                   \<and> py_strip html = ''closed.php''))
   \<and> (\<forall>html. http_response e url (requests w url) = Body html
                 \<and> py_strip html \<noteq> ''closed.php''
         \<longrightarrow> fst (get_page e url w) = Inr html)"
  by (auto simp: get_page_cases split: response.splits)

theorem get_page_throttling_witness:
  "(fst (get_page (replay [''<html>'']) ''u'' (fresh_world :: (unit list) world_scheme))
      = Inl ThrottlingError
      \<longleftrightarrow> (\<exists>html. http_response (replay [''<html>'']) ''u''
                     (requests (fresh_world :: (unit list) world_scheme) ''u'') = Body html
                   \<and> py_strip html = ''closed.php''))
   \<and> http_response (replay [''<html>'']) ''u''
         (requests (fresh_world :: (unit list) world_scheme) ''u'') = Body ''<html>''
   \<and> py_strip ''<html>'' \<noteq> ''closed.php''
   \<and> fst (get_page (replay [''<html>'']) ''u'' (fresh_world :: (unit list) world_scheme))
         = Inr ''<html>''"
  using get_page_throttling[of "replay [''<html>'']" "''u''" "fresh_world :: (unit list) world_scheme"]
  by (simp add: replay_def fresh_world_def py_strip_def py_isspace_def)

text \<open>
  The claim as stated fails: a body that differs from the sentinel by surrounding
  whitespace (here a trailing line feed) is not returned but raises
  \<open>ThrottlingError\<close>.
\<close>

theorem get_page_exact_counterexample:
  "''closed.php'' @ [CHR 0x0A] \<noteq> ''closed.php''
   \<and> fst (get_page (replay [''closed.php'' @ [CHR 0x0A]]) ''u''
              (fresh_world :: (unit list) world_scheme)) = Inl ThrottlingError"
  by (simp add: get_page_cases replay_def fresh_world_def py_strip_def py_isspace_def)


lemma get_data_fetch_body:
  assumes "http_response e url (requests w url) = Body html" "py_strip html \<noteq> ''closed.php''"
  shows "get_data_fetch e url w =
           Some (Inr html, w\<lparr>requests := (requests w)(url := Suc (requests w url))\<rparr>)"
  using assms
  by (subst get_data_fetch.simps) (simp add: get_page_cases)









section \<open>Properties of extraction\<close>

lemma get_data_scripts_no_match:
  assumes "\<forall>script \<in> set scripts. pattern_search l script = None"
  shows "get_data_scripts l scripts data = Inr data"
  using assms by (induction scripts) simp_all

lemma get_data_scripts_collect:
  "get_data_scripts l scripts data =
     (case collect (\<lambda>(name, val). case decode l val of Inl err \<Rightarrow> Inl err | Inr v \<Rightarrow> Inr (name, v))
             (List.map_filter (pattern_search l) scripts) of
        Inl err \<Rightarrow> Inl err
      | Inr ms \<Rightarrow> Inr (fold (\<lambda>(name, v). AList.update name v) ms data))"
proof (induction scripts arbitrary: data)
  case Nil
  then show ?case
    by (simp add: map_filter_simps)
next
  case (Cons script scripts)
  show ?case
  proof (cases "pattern_search l script")
    case None
    then show ?thesis
      using Cons.IH by (simp add: map_filter_simps)
  next
    case (Some m)
    obtain name val where m: "m = (name, val)"
      by (cases m)
    show ?thesis
      using Some m Cons.IH
      by (simp add: map_filter_simps decode_def split: sum.splits)
  qed
qed

lemma map_of_fold_update:
  "map_of (fold (\<lambda>(name, v). AList.update name v) ms data) = map_of data ++ map_of (rev ms)"
proof (induction ms arbitrary: data)
  case Nil
  then show ?case by simp
next
  case (Cons m ms)
  obtain name v where m: "m = (name, v)"
    by (cases m)
  have "map_of (AList.update name v data) ++ map_of (rev ms)
          = map_of data ++ ([name \<mapsto> v] ++ map_of (rev ms))"
    by (rule ext) (auto simp: update_conv' map_add_def split: option.splits)
  then show ?case
    using Cons.IH[of "AList.update name v data"] m by (simp add: map_of_append)
qed

lemma distinct_fold_update:
  "distinct (map fst data) \<Longrightarrow> distinct (map fst (fold (\<lambda>(name, v). AList.update name v) ms data))"
  by (induction ms arbitrary: data) (auto simp: distinct_update)

lemma map_of_rev_last:
  "map_of (rev ms) name =
     (case filter (\<lambda>m. fst m = name) ms of [] \<Rightarrow> None | hits \<Rightarrow> Some (snd (last hits)))"
proof (induction ms rule: rev_induct)
  case Nil
  then show ?case by simp
next
  case (snoc m ms)
  then show ?case
    by (cases m) (auto split: list.splits)
qed

text \<open>
  C10. When the values of all matching script blocks decode, the dict that
  \<open>get_data\<close> builds has exactly the matched variable names as its keys, each once, and
  maps every name to the decoded value of the last script block in document order that
  matches with this name; \<open>get_data\<close> returns this dict serialised.
\<close>

theorem get_data_last_match_wins:
  assumes "parsed_matches l html = Inr ms"
  shows "\<exists>data.
           get_data_scripts l (find_all_script l html) [] = Inr data
         \<and> set (map fst data) = set (map fst ms)
         \<and> distinct (map fst data)
         \<and> (\<forall>name. map_of data name =
               (case filter (\<lambda>m. fst m = name) ms of
                  [] \<Rightarrow> None
                | hits \<Rightarrow> Some (snd (last hits))))
         \<and> (\<forall>e url w w1. get_data_fetch e url w = Some (Inr html, w1)
               \<longrightarrow> get_data l e url w = Some (Inr (json_dumps l (JObj data)), w1))"
proof -
  define data where "data = fold (\<lambda>(name, v). AList.update name v) ms []"
  have run: "get_data_scripts l (find_all_script l html) [] = Inr data"
    using assms by (simp add: get_data_scripts_collect parsed_matches_def matches_def data_def)
  have lookup: "map_of data = map_of (rev ms)"
    by (simp add: data_def map_of_fold_update)
  have "dom (map_of data) = dom (map_of (rev ms))"
    by (simp add: lookup)
  then have keys: "set (map fst data) = set (map fst ms)"
    by (simp add: dom_map_of_conv_image_fst)
  have once: "distinct (map fst data)"
    by (simp add: data_def distinct_fold_update)
  show ?thesis
  proof (intro exI conjI allI impI)
    show "get_data_scripts l (find_all_script l html) [] = Inr data"
      by (rule run)
    show "set (map fst data) = set (map fst ms)"
      by (rule keys)
    show "distinct (map fst data)"
      by (rule once)
    show "map_of data name =
            (case filter (\<lambda>m. fst m = name) ms of [] \<Rightarrow> None | hits \<Rightarrow> Some (snd (last hits)))"
      for name
      by (simp add: lookup map_of_rev_last)
    show "get_data l e url w = Some (Inr (json_dumps l (JObj data)), w1)"
      if "get_data_fetch e url w = Some (Inr html, w1)" for e url w and w1 :: "'a world_scheme"
      using that run by (simp add: get_data_def)
  qed
qed

lemma toy_matches:
  "parsed_matches toy_lib ''a=1;a=2;b=3''
     = Inr [(''a'', JStr ''1''), (''a'', JStr ''2''), (''b'', JStr ''3'')]"
  by (simp add: parsed_matches_def matches_def toy_lib_def decode_def map_filter_simps)

theorem get_data_last_match_wins_witness:
  "parsed_matches toy_lib ''a=1;a=2;b=3''
     = Inr [(''a'', JStr ''1''), (''a'', JStr ''2''), (''b'', JStr ''3'')]
   \<and> (\<exists>data.
         get_data_scripts toy_lib (find_all_script toy_lib ''a=1;a=2;b=3'') [] = Inr data
       \<and> set (map fst data) = {''a'', ''b''}
       \<and> distinct (map fst data)
       \<and> map_of data ''a'' = Some (JStr ''2'')
       \<and> map_of data ''b'' = Some (JStr ''3''))"
proof -
  from get_data_last_match_wins[OF toy_matches]
  obtain data where
      "get_data_scripts toy_lib (find_all_script toy_lib ''a=1;a=2;b=3'') [] = Inr data"
      "set (map fst data) = set (map fst [(''a'', JStr ''1''), (''a'', JStr ''2''), (''b'', JStr ''3'')])"
      "distinct (map fst data)"
      "\<forall>name. map_of data name =
               (case filter (\<lambda>m. fst m = name) [(''a'', JStr ''1''), (''a'', JStr ''2''), (''b'', JStr ''3'')] of
                  [] \<Rightarrow> None
                | hits \<Rightarrow> Some (snd (last hits)))"
    by blast
  then show ?thesis
    using toy_matches by (intro conjI exI[of _ data]) auto
qed

section \<open>Properties of persistence\<close>

lemma plain_segmentD:
  assumes "plain_segment s"
  shows "s \<noteq> []" "CHR ''/'' \<notin> set s" "hd s \<noteq> CHR ''/''" "last s \<noteq> CHR ''/''"
    "s \<noteq> ''.''" "s \<noteq> ''..''"
proof -
  from assms show "s \<noteq> []" "CHR ''/'' \<notin> set s" "s \<noteq> ''.''" "s \<noteq> ''..''"
    by (simp_all add: plain_segment_def)
  then show "hd s \<noteq> CHR ''/''" "last s \<noteq> CHR ''/''"
    by (metis hd_in_set, metis last_in_set)
qed

lemma os_path_join_plain:
  assumes "p \<noteq> []" "last p \<noteq> CHR ''/''" "\<forall>s \<in> set key. plain_segment s"
  shows "os_path_join p key = p @ concat (map ((#) CHR ''/'') key)"
  using assms
proof (induction key arbitrary: p)
  case Nil
  then show ?case by simp
next
  case (Cons s key)
  have s: "s \<noteq> []" "hd s \<noteq> CHR ''/''" "last s \<noteq> CHR ''/''"
    using Cons.prems(3) by (simp_all add: plain_segmentD)
  have "os_path_join p (s # key) = os_path_join (p @ ''/'' @ s) key"
    using Cons.prems(1,2) s by simp
  also have "\<dots> = (p @ ''/'' @ s) @ concat (map ((#) CHR ''/'') key)"
    using Cons.prems(3) s by (intro Cons.IH) simp_all
  finally show ?case
    by simp
qed

lemma os_path_dirname_plain:
  assumes "p \<noteq> []" "last p \<noteq> CHR ''/''" "CHR ''/'' \<notin> set s"
  shows "os_path_dirname (p @ CHR ''/'' # s) = p"
proof -
  define h where "h = rev (dropWhile (\<lambda>c. c \<noteq> CHR ''/'') (rev (p @ CHR ''/'' # s)))"
  have "dropWhile (\<lambda>c. c \<noteq> CHR ''/'') (rev s @ CHR ''/'' # rev p) = CHR ''/'' # rev p"
    using assms(3) by (induction s rule: rev_induct) auto
  then have head: "h = p @ ''/''"
    by (simp add: h_def)
  have "last p \<in> set p"
    using assms(1) by simp
  then have "\<not> list_all (\<lambda>c. c = CHR ''/'') p"
    using assms(2) by (auto simp: list_all_iff)
  then have not_all: "h \<noteq> [] \<and> \<not> list_all (\<lambda>c. c = CHR ''/'') h"
    by (simp add: head)
  have "dropWhile (\<lambda>c. c = CHR ''/'') (rev p) = rev p"
    using assms(1,2) by (cases "rev p") (simp_all add: last_rev[symmetric] hd_rev)
  then have strip: "rev (dropWhile (\<lambda>c. c = CHR ''/'') (rev h)) = p"
    by (simp add: head)
  have "os_path_dirname (p @ CHR ''/'' # s) =
          (if h \<noteq> [] \<and> \<not> list_all (\<lambda>c. c = CHR ''/'') h
           then rev (dropWhile (\<lambda>c. c = CHR ''/'') (rev h)) else h)"
    unfolding os_path_dirname_def Let_def h_def ..
  then show ?thesis
    using not_all strip by simp
qed

lemma os_path_basename_plain:
  assumes "CHR ''/'' \<notin> set s"
  shows "os_path_basename (p @ CHR ''/'' # s) = s"
proof -
  have "takeWhile (\<lambda>c. c \<noteq> CHR ''/'') (rev s @ CHR ''/'' # rev p) = rev s"
    using assms by (induction s rule: rev_induct) auto
  then show ?thesis
    by (simp add: os_path_basename_def)
qed

lemma path_ancestors_shorter:
  assumes "a \<in> set (path_ancestors p)"
  shows "length a < length p"
  using assms by (auto simp: path_ancestors_def)


lemma plain_path_shape:
  assumes "key \<noteq> []" "\<forall>s \<in> set key. plain_segment s"
  shows "\<exists>p. os_path_join ROOTDIR key = p @ CHR ''/'' # last key \<and> p \<noteq> [] \<and> last p \<noteq> CHR ''/''"
proof -
  have root: "ROOTDIR \<noteq> []" "last ROOTDIR \<noteq> CHR ''/''"
    by (simp_all add: ROOTDIR_def)
  define p where "p = ROOTDIR @ concat (map ((#) CHR ''/'') (butlast key))"
  have key: "key = butlast key @ [last key]"
    using assms(1) by simp
  have "os_path_join ROOTDIR key = ROOTDIR @ concat (map ((#) CHR ''/'') (butlast key @ [last key]))"
    using os_path_join_plain[OF root assms(2)] key by simp
  then have shape: "os_path_join ROOTDIR key = p @ CHR ''/'' # last key"
    by (simp add: p_def)
  have nonempty: "p \<noteq> []"
    using root by (simp add: p_def)
  have "last p \<noteq> CHR ''/''"
  proof (cases "butlast key" rule: rev_cases)
    case Nil
    then show ?thesis
      using root by (simp add: p_def)
  next
    case (snoc ks k)
    then have "k \<in> set key"
      by (metis in_set_butlastD in_set_conv_decomp)
    then have "k \<noteq> []" "last k \<noteq> CHR ''/''"
      using assms(2) by (simp_all add: plain_segmentD)
    then show ?thesis
      using snoc by (simp add: p_def)
  qed
  with shape nonempty show ?thesis
    by blast
qed

lemma tag_and_save_plain:
  assumes run: "coroutine w = Some (Inr data, w1)"
    and key: "key \<noteq> []" "\<forall>s \<in> set key. plain_segment s"
    and fs: "can_store w1 (os_path_join ROOTDIR key)"
  shows "tag_and_save key coroutine w =
           Some (Inr (key, data),
                 w1\<lparr>dirs := (if os_path_isdir w1 (os_path_dirname (os_path_join ROOTDIR key))
                             then dirs w1
                             else dirs w1
                                    \<union> set (path_ancestors (os_path_dirname (os_path_join ROOTDIR key)))
                                    \<union> {os_path_dirname (os_path_join ROOTDIR key)}),
                     files := (files w1)(os_path_join ROOTDIR key \<mapsto> data)\<rparr>)"
proof -
  define path where "path = os_path_join ROOTDIR key"
  from plain_path_shape[OF key] obtain p where
    p: "path = p @ CHR ''/'' # last key" "p \<noteq> []" "last p \<noteq> CHR ''/''"
    by (auto simp: path_def)
  have seg: "plain_segment (last key)"
    using key by simp
  have parent: "os_path_dirname path = p"
    using p seg by (simp add: os_path_dirname_plain plain_segmentD)
  have base: "os_path_basename path = last key"
    using p seg by (simp add: os_path_basename_plain plain_segmentD)
  have path_ok: "path \<noteq> []" "last path \<noteq> CHR ''/''"
      "os_path_basename path \<noteq> ''.''" "os_path_basename path \<noteq> ''..''"
    using p(1) seg base by (simp_all add: plain_segmentD)
  have longer: "length p < length path"
    by (simp add: p(1))
  have not_parent: "path \<noteq> p"
    using longer by auto
  have not_ancestor: "path \<notin> set (path_ancestors p)"
    using longer path_ancestors_shorter[of path p] by auto
  from fs have store: "path \<notin> dirs w1" "files w1 p = None"
      "\<not> list_ex (\<lambda>a. files w1 a \<noteq> None) (path_ancestors p)"
    by (simp_all add: can_store_def path_def[symmetric] parent list_all_iff list_ex_iff)
  show ?thesis
  proof (cases "p \<in> dirs w1")
    case True
    have "open_write path data w1 = Inr (w1\<lparr>files := (files w1)(path \<mapsto> data)\<rparr>)"
      using True path_ok store p(2) by (simp add: open_write_def parent)
    then show ?thesis
      using True run p(2)
      by (simp add: tag_and_save_def path_def[symmetric] parent os_path_isdir_def)
  next
    case False
    let ?w2 = "w1\<lparr>dirs := dirs w1 \<union> set (path_ancestors p) \<union> {p}\<rparr>"
    have mk: "os_makedirs p w1 = Inr ?w2"
      using False store p(2) by (simp add: os_makedirs_def)
    have "open_write path data ?w2 = Inr (?w2\<lparr>files := (files ?w2)(path \<mapsto> data)\<rparr>)"
      using path_ok store p(2) not_parent not_ancestor by (simp add: open_write_def parent)
    then show ?thesis
      using False run p(2) mk
      by (simp add: tag_and_save_def path_def[symmetric] parent os_path_isdir_def)
  qed
qed

lemma tag_and_save_success:
  assumes "tag_and_save key coroutine w = Some (Inr r, w')"
  shows "\<exists>data w1. coroutine w = Some (Inr data, w1) \<and> r = (key, data)
           \<and> files w' = (files w1)(os_path_join ROOTDIR key \<mapsto> data)
           \<and> dirs w1 \<subseteq> dirs w'
           \<and> requests w' = requests w1 \<and> draws w' = draws w1 \<and> slept w' = slept w1
           \<and> logged w' = logged w1 \<and> world.more w' = world.more w1"
  using assms
  by (auto simp: tag_and_save_def Let_def os_makedirs_def open_write_def
           split: option.splits sum.splits prod.splits if_splits)





text \<open>
  C8. When no script of the fetched page matches the pattern, \<open>get_data\<close> does not
  raise: it returns the serialisation of the empty dict. \<open>tag_and_save\<close> then proceeds
  exactly as it does for any other payload, and whenever it completes, the file of the key
  holds that serialisation.
\<close>

theorem get_data_no_match:
  assumes "get_data_fetch e url w = Some (Inr html, w1)"
    and "\<forall>script \<in> set (find_all_script l html). pattern_search l script = None"
  shows "get_data l e url w = Some (Inr (json_dumps l (JObj [])), w1)
       \<and> tag_and_save key (get_data l e url) w
           = tag_and_save key (returning (json_dumps l (JObj []))) w1
       \<and> (\<forall>r w'. tag_and_save key (get_data l e url) w = Some (Inr r, w')
             \<longrightarrow> r = (key, json_dumps l (JObj []))
                \<and> files w' (os_path_join ROOTDIR key) = Some (json_dumps l (JObj [])))"
proof -
  have empty: "get_data l e url w = Some (Inr (json_dumps l (JObj [])), w1)"
    using assms by (simp add: get_data_def get_data_scripts_no_match)
  have same: "tag_and_save key (get_data l e url) w
                = tag_and_save key (returning (json_dumps l (JObj []))) w1"
    by (simp add: tag_and_save_def empty returning_def)
  have stored: "r = (key, json_dumps l (JObj []))
                \<and> files w' (os_path_join ROOTDIR key) = Some (json_dumps l (JObj []))"
    if "tag_and_save key (get_data l e url) w = Some (Inr r, w')" for r w'
    using tag_and_save_success[OF that] empty by auto
  from empty same stored show ?thesis
    by blast
qed

theorem get_data_no_match_witness:
  "get_data_fetch toy_site ''https://understat.com/player/p1''
     (fresh_world :: (unit list) world_scheme)
     = Some (Inr ''<html></html>'',
             (fresh_world :: (unit list) world_scheme)\<lparr>requests := (requests (fresh_world :: (unit list) world_scheme))(''https://understat.com/player/p1'' := 1)\<rparr>)
   \<and> list_all (\<lambda>script. pattern_search toy_lib script = None)
        (find_all_script toy_lib ''<html></html>'')
   \<and> get_data toy_lib toy_site ''https://understat.com/player/p1''
         (fresh_world :: (unit list) world_scheme)
       = Some (Inr ''{}'',
               (fresh_world :: (unit list) world_scheme)\<lparr>requests := (requests (fresh_world :: (unit list) world_scheme))(''https://understat.com/player/p1'' := 1)\<rparr>)
   \<and> (\<exists>w'. tag_and_save [''player'', ''p1'']
               (get_data toy_lib toy_site ''https://understat.com/player/p1'')
               (fresh_world :: (unit list) world_scheme)
             = Some (Inr ([''player'', ''p1''], ''{}''), w')
           \<and> files w' ''data/player/p1'' = Some ''{}'')"
proof -
  let ?url = "''https://understat.com/player/p1''"
  let ?w = "fresh_world :: (unit list) world_scheme"
  let ?w1 = "?w\<lparr>requests := (requests ?w)(?url := 1)\<rparr>"
  let ?key = "[''player'', ''p1'']"
  have strip: "py_strip ''<html></html>'' \<noteq> ''closed.php''"
    by (simp add: py_strip_def py_isspace_def)
  have "http_response toy_site ?url (requests ?w ?url) = Body ''<html></html>''"
    by (simp add: toy_site_def)
  from get_data_fetch_body[OF this strip]
  have fetch: "get_data_fetch toy_site ?url ?w = Some (Inr ''<html></html>'', ?w1)"
    by (simp add: fresh_world_def)
  have none: "\<forall>script \<in> set (find_all_script toy_lib ''<html></html>'').
                pattern_search toy_lib script = None"
    by (simp add: toy_lib_def)
  have dumps: "json_dumps toy_lib (JObj []) = ''{}''"
    by (simp add: toy_lib_def)
  have plain: "\<forall>s \<in> set ?key. plain_segment s"
    by (simp add: plain_segment_def)
  have path: "os_path_join ROOTDIR ?key = ''data/player/p1''"
    by (simp add: ROOTDIR_def)
  have store: "can_store ?w1 (os_path_join ROOTDIR ?key)"
    by (simp add: can_store_def fresh_world_def list_all_iff)
  note claim = get_data_no_match[OF fetch none, of ?key]
  from claim have data: "get_data toy_lib toy_site ?url ?w = Some (Inr ''{}'', ?w1)"
    by (simp add: dumps)
  have "?key \<noteq> []"
    by simp
  from tag_and_save_plain[of "get_data toy_lib toy_site ?url" ?w "''{}''" ?w1 ?key,
        OF data this plain store]
  obtain w' where saved: "tag_and_save ?key (get_data toy_lib toy_site ?url) ?w
                            = Some (Inr (?key, ''{}''), w')"
    by auto
  with claim have "files w' (os_path_join ROOTDIR ?key) = Some ''{}''"
    by (simp add: dumps)
  then have "files w' ''data/player/p1'' = Some ''{}''"
    by (simp only: path)
  with fetch none data saved show ?thesis
    by (auto simp: list_all_iff)
qed

section \<open>Properties of the derivation phase\<close>

lemma collect_those:
  assumes "those (map h xs) = Some ys"
    and "\<And>x y. x \<in> set xs \<Longrightarrow> h x = Some y \<Longrightarrow> f x = Inr (g y)"
  shows "collect f xs = Inr (map g ys)"
  using assms
proof (induction xs arbitrary: ys)
  case Nil
  then show ?case by simp
next
  case (Cons x xs)
  from Cons.prems(1) obtain y ys' where
    y: "h x = Some y" "those (map h xs) = Some ys'" "ys = y # ys'"
    by (auto split: option.splits)
  have "f x = Inr (g y)"
    using Cons.prems(2)[of x y] y(1) by simp
  moreover have "collect f xs = Inr (map g ys')"
    using Cons.IH[OF y(2)] Cons.prems(2) by simp
  ultimately show ?case
    by (simp add: y(3))
qed

lemma str_field_getitem:
  assumes "str_field k v = Some s"
  shows "py_getitem v k = Inr (JStr s)"
  using assms by (auto simp: str_field_def split: json.splits option.splits)

lemma team_seasons_of_snapshot:
  assumes "snapshot_titles val = Some titles"
  shows "team_seasons_of season val = Inr (map (\<lambda>t. (JStr t, season)) titles)"
proof -
  from assms obtain kvs teams where
    val: "val = JObj kvs" "map_of kvs ''teamsData'' = Some (JObj teams)"
      "those (map (\<lambda>(team_id, team). str_field ''title'' team) teams) = Some titles"
    by (auto simp: snapshot_titles_def split: json.splits option.splits)
  have "collect
          (\<lambda>(team_id, team).
             case py_getitem team ''title'' of
               Inl err \<Rightarrow> Inl err
             | Inr title \<Rightarrow> if py_hashable title then Inr (title, season) else Inl TypeError)
          teams = Inr (map (\<lambda>t. (JStr t, season)) titles)"
    by (rule collect_those[OF val(3)]) (auto simp: str_field_getitem)
  then show ?thesis
    by (simp add: team_seasons_of_def val(1,2))
qed

lemma ids_of_snapshot:
  assumes "snapshot_ids field val = Some ids"
  shows "ids_of field val = Inr (map JStr ids)"
proof -
  from assms obtain kvs xs where
    val: "val = JObj kvs" "map_of kvs field = Some (JArr xs)"
      "those (map (str_field ''id'') xs) = Some ids"
    by (auto simp: snapshot_ids_def split: json.splits option.splits)
  have "collect
          (\<lambda>x. case py_getitem x ''id'' of
                  Inl err \<Rightarrow> Inl err
                | Inr ident \<Rightarrow> if py_hashable ident then Inr ident else Inl TypeError)
          xs = Inr (map JStr ids)"
    by (rule collect_those[OF val(3)]) (auto simp: str_field_getitem)
  then show ?thesis
    by (simp add: ids_of_def val(1,2))
qed

lemma py_set_update_equality:
  assumes "\<And>x y. x \<in> set new \<Longrightarrow> y \<in> set s \<union> set new \<Longrightarrow> eq x y \<longleftrightarrow> x = y"
  shows "set (py_set_update eq s new) = set s \<union> set new
       \<and> (distinct s \<longrightarrow> distinct (py_set_update eq s new))"
  using assms
proof (induction new arbitrary: s)
  case Nil
  then show ?case
    by (simp add: py_set_update_def)
next
  case (Cons x new)
  define s' where "s' = (if list_ex (eq x) s then s else s @ [x])"
  have member: "list_ex (eq x) s \<longleftrightarrow> x \<in> set s"
    using Cons.prems[of x] by (auto simp: list_ex_iff)
  have s': "set s' = insert x (set s)" "distinct s \<longrightarrow> distinct s'"
    by (auto simp: s'_def member)
  have step: "py_set_update eq s (x # new) = py_set_update eq s' new"
    by (simp add: py_set_update_def s'_def)
  have "set (py_set_update eq s' new) = set s' \<union> set new
       \<and> (distinct s' \<longrightarrow> distinct (py_set_update eq s' new))"
    by (rule Cons.IH) (use Cons.prems s'(1) in auto)
  then show ?case
    using s' step by auto
qed

lemma py_eq_JStr: "py_eq (JStr a) (JStr b) \<longleftrightarrow> a = b"
  by (simp add: py_eq_def)

lemma main_team_seasons_union:
  assumes "league_snapshots data" "distinct acc" "set acc \<subseteq> range (\<lambda>(t, s). (JStr t, s))"
  shows "\<exists>ts. main_team_seasons data acc = Inr ts \<and> distinct ts
           \<and> set ts = set acc \<union>
               (\<Union>(key, val) \<in> set data. \<Union>titles \<in> set_option (snapshot_titles val).
                  (\<lambda>t. (JStr t, key ! 2)) ` set titles)"
  using assms
proof (induction data arbitrary: acc)
  case Nil
  then show ?case by simp
next
  case (Cons item data)
  obtain key val where item: "item = (key, val)"
    by (cases item)
  from Cons.prems(1) item obtain kind league season titles where
    key: "key = [kind, league, season]" and titles: "snapshot_titles val = Some titles"
    and rest: "league_snapshots data"
    by (auto simp: league_snapshots_def length_Suc_conv numeral_3_eq_3)
  let ?eq = "\<lambda>(t, s) (t', s'). py_eq t t' \<and> s = s'"
  let ?new = "map (\<lambda>t. (JStr t, season)) titles"
  define acc' where "acc' = py_set_update ?eq acc ?new"
  have "\<And>x y. x \<in> set ?new \<Longrightarrow> y \<in> set acc \<union> set ?new \<Longrightarrow> ?eq x y \<longleftrightarrow> x = y"
    using Cons.prems(3) by (auto simp: py_eq_JStr)
  from py_set_update_equality[of ?new acc ?eq, OF this]
  have acc': "set acc' = set acc \<union> set ?new" "distinct acc'"
    using Cons.prems(2) by (simp_all add: acc'_def)
  have range: "set acc' \<subseteq> range (\<lambda>(t, s). (JStr t, s))"
    using Cons.prems(3) acc'(1) by auto
  have step: "main_team_seasons (item # data) acc = main_team_seasons data acc'"
    by (simp add: item key team_seasons_of_snapshot[OF titles] acc'_def)
  from Cons.IH[OF rest acc'(2) range] obtain ts where
    ts: "main_team_seasons data acc' = Inr ts" "distinct ts"
      "set ts = set acc' \<union>
         (\<Union>(key, val) \<in> set data. \<Union>titles \<in> set_option (snapshot_titles val).
            (\<lambda>t. (JStr t, key ! 2)) ` set titles)"
    by blast
  have "set ts = set acc \<union>
          (\<Union>(key, val) \<in> set (item # data). \<Union>titles \<in> set_option (snapshot_titles val).
             (\<lambda>t. (JStr t, key ! 2)) ` set titles)"
    using ts(3) acc'(1) by (auto simp: item key titles)
  with step ts(1,2) show ?case
    by auto
qed

lemma main_ids_union:
  assumes "list_all (\<lambda>(key, val). snapshot_ids field val \<noteq> None) data"
    and "distinct acc" "set acc \<subseteq> range JStr"
  shows "\<exists>ids. main_ids field data acc = Inr ids \<and> distinct ids
           \<and> set ids = set acc \<union>
               (\<Union>(key, val) \<in> set data. \<Union>xs \<in> set_option (snapshot_ids field val).
                  JStr ` set xs)"
  using assms
proof (induction data arbitrary: acc)
  case Nil
  then show ?case by simp
next
  case (Cons item data)
  obtain key val where item: "item = (key, val)"
    by (cases item)
  from Cons.prems(1) item obtain xs where
    xs: "snapshot_ids field val = Some xs"
    and rest: "list_all (\<lambda>(key, val). snapshot_ids field val \<noteq> None) data"
    by auto
  let ?new = "map JStr xs"
  define acc' where "acc' = py_set_update py_eq acc ?new"
  have "\<And>x y. x \<in> set ?new \<Longrightarrow> y \<in> set acc \<union> set ?new \<Longrightarrow> py_eq x y \<longleftrightarrow> x = y"
    using Cons.prems(3) by (auto simp: py_eq_JStr)
  from py_set_update_equality[of ?new acc py_eq, OF this]
  have acc': "set acc' = set acc \<union> set ?new" "distinct acc'"
    using Cons.prems(2) by (simp_all add: acc'_def)
  have range: "set acc' \<subseteq> range JStr"
    using Cons.prems(3) acc'(1) by auto
  have step: "main_ids field (item # data) acc = main_ids field data acc'"
    by (simp add: item ids_of_snapshot[OF xs] acc'_def)
  from Cons.IH[OF rest acc'(2) range] obtain ids where
    ids: "main_ids field data acc' = Inr ids" "distinct ids"
      "set ids = set acc' \<union>
         (\<Union>(key, val) \<in> set data. \<Union>xs \<in> set_option (snapshot_ids field val). JStr ` set xs)"
    by blast
  have "set ids = set acc \<union>
          (\<Union>(key, val) \<in> set (item # data). \<Union>xs \<in> set_option (snapshot_ids field val).
             JStr ` set xs)"
    using ids(3) acc'(1) by (auto simp: item xs)
  with step ids(1,2) show ?case
    by auto
qed


text \<open>
  C3. For every collection of League Snapshots keyed by triples, the three loops of the
  derivation phase return, without repetition, the set of all pairs of a team title
  (from the values of \<open>teamsData\<close>) with the season of the snapshot's key, the set of all
  ids of the descriptors in \<open>playersData\<close>, and the set of all ids of the descriptors
  in \<open>datesData\<close>, each the union over all snapshots. Titles and ids are strings.
\<close>

theorem derivation_unions:
  assumes "league_snapshots data"
  shows "\<exists>team_seasons player_ids match_ids.
           main_team_seasons data [] = Inr team_seasons
         \<and> main_ids ''playersData'' data [] = Inr player_ids
         \<and> main_ids ''datesData'' data [] = Inr match_ids
         \<and> distinct team_seasons \<and> distinct player_ids \<and> distinct match_ids
         \<and> set team_seasons =
             (\<Union>(key, val) \<in> set data. \<Union>titles \<in> set_option (snapshot_titles val).
                (\<lambda>t. (JStr t, key ! 2)) ` set titles)
         \<and> set player_ids =
             (\<Union>(key, val) \<in> set data. \<Union>ids \<in> set_option (snapshot_ids ''playersData'' val).
                JStr ` set ids)
         \<and> set match_ids =
             (\<Union>(key, val) \<in> set data. \<Union>ids \<in> set_option (snapshot_ids ''datesData'' val).
                JStr ` set ids)"
proof -
  from assms have players: "list_all (\<lambda>(key, val). snapshot_ids ''playersData'' val \<noteq> None) data"
    and matches: "list_all (\<lambda>(key, val). snapshot_ids ''datesData'' val \<noteq> None) data"
    by (auto simp: league_snapshots_def list_all_iff)
  from main_team_seasons_union[OF assms, of "[]"] obtain ts where
    ts: "main_team_seasons data [] = Inr ts" "distinct ts"
      "set ts = (\<Union>(key, val) \<in> set data. \<Union>titles \<in> set_option (snapshot_titles val).
                (\<lambda>t. (JStr t, key ! 2)) ` set titles)"
    by auto
  from main_ids_union[OF players, of "[]"] obtain ps where
    ps: "main_ids ''playersData'' data [] = Inr ps" "distinct ps"
      "set ps = (\<Union>(key, val) \<in> set data. \<Union>ids \<in> set_option (snapshot_ids ''playersData'' val).
                JStr ` set ids)"
    by auto
  from main_ids_union[OF matches, of "[]"] obtain ms where
    ms: "main_ids ''datesData'' data [] = Inr ms" "distinct ms"
      "set ms = (\<Union>(key, val) \<in> set data. \<Union>ids \<in> set_option (snapshot_ids ''datesData'' val).
                JStr ` set ids)"
    by auto
  from ts ps ms show ?thesis
    by blast
qed

lemma league_snapshot_example_contents:
  "snapshot_titles league_snapshot_example = Some [''A'']"
  "snapshot_ids ''playersData'' league_snapshot_example = Some [''p1'']"
  "snapshot_ids ''datesData'' league_snapshot_example = Some [''m1'']"
  by (simp_all add: league_snapshot_example_def snapshot_titles_def snapshot_ids_def str_field_def)

theorem derivation_unions_witness:
  "league_snapshots [([''league'', ''EPL'', ''2016-2017''], league_snapshot_example)]
   \<and> (\<exists>team_seasons player_ids match_ids.
         main_team_seasons [([''league'', ''EPL'', ''2016-2017''], league_snapshot_example)] []
           = Inr team_seasons
       \<and> main_ids ''playersData'' [([''league'', ''EPL'', ''2016-2017''], league_snapshot_example)] []
           = Inr player_ids
       \<and> main_ids ''datesData'' [([''league'', ''EPL'', ''2016-2017''], league_snapshot_example)] []
           = Inr match_ids
       \<and> set team_seasons = {(JStr ''A'', ''2016-2017'')}
       \<and> set player_ids = {JStr ''p1''}
       \<and> set match_ids = {JStr ''m1''})"
proof -
  let ?data = "[([''league'', ''EPL'', ''2016-2017''], league_snapshot_example)]"
  have snapshots: "league_snapshots ?data"
    by (simp add: league_snapshots_def league_snapshot_example_contents)
  from derivation_unions[OF snapshots] obtain ts ps ms where
    run: "main_team_seasons ?data [] = Inr ts" "main_ids ''playersData'' ?data [] = Inr ps"
      "main_ids ''datesData'' ?data [] = Inr ms"
    and sets: "set ts =
             (\<Union>(key, val) \<in> set ?data. \<Union>titles \<in> set_option (snapshot_titles val).
                (\<lambda>t. (JStr t, key ! 2)) ` set titles)"
      "set ps =
             (\<Union>(key, val) \<in> set ?data. \<Union>ids \<in> set_option (snapshot_ids ''playersData'' val).
                JStr ` set ids)"
      "set ms =
             (\<Union>(key, val) \<in> set ?data. \<Union>ids \<in> set_option (snapshot_ids ''datesData'' val).
                JStr ` set ids)"
    by (elim exE conjE) (rule that; assumption)
  from sets have singletons: "set ts = {(JStr ''A'', ''2016-2017'')}" "set ps = {JStr ''p1''}"
      "set ms = {JStr ''m1''}"
    by (simp_all add: league_snapshot_example_contents)
  show ?thesis
  proof (rule conjI[OF snapshots], intro exI conjI)
    show "main_team_seasons ?data [] = Inr ts"
      by (rule run(1))
    show "main_ids ''playersData'' ?data [] = Inr ps"
      by (rule run(2))
    show "main_ids ''datesData'' ?data [] = Inr ms"
      by (rule run(3))
  qed (rule singletons)+
qed

section \<open>What the coroutines leave unchanged\<close>















section \<open>The log of the runner and of the orchestrator\<close>
















section \<open>What the league driver returns\<close>








end
